theory Spec2Isabelle
  imports Complex_Main "HOL-Library.Word"
begin

section \<open>Sentinel-2 colour converter: the tile partitioner\<close>

text \<open>
  The converter is one Python class, \<open>Sentinel2ColorConverter\<close> (\<open>src/app.py\<close>).
  Python floats are modelled as exact real numbers: coordinates, sums and comparisons
  are those of \<open>real\<close>. Python integers are \<open>int\<close>.
\<close>

subsection \<open>Rectangles and tiles\<close>

text \<open>
  A tile is the dictionary \<open>{'id': tile_id, 'bounds': {'west', 'east', 'south', 'north'}}\<close>.
  The key \<open>id\<close> is the field \<open>ident\<close> (\<open>id\<close> is the identity function of HOL).
\<close>

record rect =
  west :: real
  east :: real
  south :: real
  north :: real

record tile =
  ident :: int
  bounds :: rect

text \<open>The world bounds in Web Mercator (EPSG:3857), lines 85 to 90.\<close>

definition world_bounds :: rect where
  "world_bounds = \<lparr>west = - 20037508.34, east = 20037508.34,
                    south = - 20037508.34, north = 20037508.34\<rparr>"

text \<open>The test of line 103 on the vertical cursor: \<open>abs(y) > 15000000\<close>.\<close>

definition polar :: "real \<Rightarrow> bool" where
  "polar y \<longleftrightarrow> \<bar>y\<bar> > 15000000"

text \<open>The \<open>bounds\<close> dictionary of lines 109 to 114, for the cursor position \<open>(x, y)\<close>.\<close>

definition cell :: "rect \<Rightarrow> real \<Rightarrow> real \<Rightarrow> real \<Rightarrow> real \<Rightarrow> rect" where
  "cell wb tile_width tile_height x y =
     \<lparr>west = x, east = min (x + tile_width) (east wb),
      south = y, north = min (y + tile_height) (north wb)\<rparr>"

text \<open>The dictionary appended at lines 107 to 115.\<close>

definition new_tile :: "rect \<Rightarrow> real \<Rightarrow> real \<Rightarrow> int \<Rightarrow> real \<Rightarrow> real \<Rightarrow> tile" where
  "new_tile wb tile_width tile_height tile_id x y =
     \<lparr>ident = tile_id, bounds = cell wb tile_width tile_height x y\<rparr>"

text \<open>
  The inner loop, lines 101 to 117: \<open>while y < world_bounds['north']\<close>. It may run
  forever (a tile height that is not positive never moves the cursor), so it is a
  partial function: \<open>None\<close> is the loop that does not end. The skip test \<open>skip\<close> and
  the world bounds \<open>wb\<close> are parameters; the source fixes them to \<^const>\<open>polar\<close> and
  \<^const>\<open>world_bounds\<close> (see \<open>get_world_tiles\<close> below). The loop returns the counter
  and the list, the two variables it changes that are read after it.
\<close>

partial_function (option) inner_loop ::
  "(real \<Rightarrow> bool) \<Rightarrow> rect \<Rightarrow> real \<Rightarrow> real \<Rightarrow> real \<Rightarrow> real \<Rightarrow> int \<Rightarrow> tile list
     \<Rightarrow> (int \<times> tile list) option" where
  [code]: "inner_loop skip wb tile_width tile_height x y tile_id tiles =
     (if y < north wb then
        (if skip y then
           inner_loop skip wb tile_width tile_height x (y + tile_height) tile_id tiles
         else
           inner_loop skip wb tile_width tile_height x (y + tile_height) (tile_id + 1)
             (tiles @ [new_tile wb tile_width tile_height tile_id x y]))
      else Some (tile_id, tiles))"

text \<open>The outer loop, lines 99 to 118: \<open>while x < world_bounds['east']\<close>.\<close>

partial_function (option) outer_loop ::
  "(real \<Rightarrow> bool) \<Rightarrow> rect \<Rightarrow> real \<Rightarrow> real \<Rightarrow> real \<Rightarrow> int \<Rightarrow> tile list
     \<Rightarrow> tile list option" where
  [code]: "outer_loop skip wb tile_width tile_height x tile_id tiles =
     (if x < east wb then
        Option.bind (inner_loop skip wb tile_width tile_height x (south wb) tile_id tiles)
          (\<lambda>(tile_id', tiles').
             outer_loop skip wb tile_width tile_height (x + tile_width) tile_id' tiles')
      else Some tiles)"

text \<open>The two loops from their initial state, lines 96 to 120.\<close>

definition sweep :: "(real \<Rightarrow> bool) \<Rightarrow> rect \<Rightarrow> real \<Rightarrow> real \<Rightarrow> tile list option" where
  "sweep skip wb tile_width tile_height =
     outer_loop skip wb tile_width tile_height (west wb) 0 []"

text \<open>
  \<open>get_world_tiles(self, resolution=5000)\<close>: the tile size is \<open>resolution * 1000\<close>
  in both directions.
\<close>

definition get_world_tiles :: "int \<Rightarrow> tile list option" where
  "get_world_tiles resolution =
     (let tile_width = real_of_int (resolution * 1000); tile_height = tile_width
      in sweep polar world_bounds tile_width tile_height)"

subsection \<open>Geometry of rectangles\<close>

text \<open>
  A rectangle holds the points from its west and south edges up to, but not
  including, its east and north edges: a point on an edge shared by two tiles belongs
  to the tile of which it is the lower bound.
\<close>

definition inside :: "rect \<Rightarrow> real \<Rightarrow> real \<Rightarrow> bool" where
  "inside r px py \<longleftrightarrow> west r \<le> px \<and> px < east r \<and> south r \<le> py \<and> py < north r"

definition overlap :: "rect \<Rightarrow> rect \<Rightarrow> bool" where
  "overlap r q \<longleftrightarrow>
     max (west r) (west q) < min (east r) (east q) \<and>
     max (south r) (south q) < min (north r) (north q)"

definition vertical_center :: "rect \<Rightarrow> real" where
  "vertical_center r = (south r + north r) / 2"

text \<open>Emission order of the two loops: by column first, then upwards in the column.\<close>

definition emitted_before :: "rect \<Rightarrow> rect \<Rightarrow> bool" where
  "emitted_before r q \<longleftrightarrow> west r < west q \<or> (west r = west q \<and> south r < south q)"

subsection \<open>The loops in closed form\<close>

text \<open>The number of cursor positions \<open>a, a + d, a + 2 d, ...\<close> below \<open>b\<close>.\<close>

definition steps :: "real \<Rightarrow> real \<Rightarrow> real \<Rightarrow> nat" where
  "steps a b d = nat \<lceil>(b - a) / d\<rceil>"

text \<open>Numbering rectangles from a counter value on, as the loop does.\<close>

primrec number_from :: "int \<Rightarrow> rect list \<Rightarrow> tile list" where
  "number_from t [] = []"
| "number_from t (r # rs) = \<lparr>ident = t, bounds = r\<rparr> # number_from (t + 1) rs"

text \<open>The rectangles of \<open>n\<close> cursor positions of one column, from \<open>y\<close> upwards.\<close>

primrec column ::
  "(real \<Rightarrow> bool) \<Rightarrow> rect \<Rightarrow> real \<Rightarrow> real \<Rightarrow> real \<Rightarrow> real \<Rightarrow> nat \<Rightarrow> rect list" where
  "column skip wb tw th x y 0 = []"
| "column skip wb tw th x y (Suc n) =
     (if skip y then [] else [cell wb tw th x y]) @ column skip wb tw th x (y + th) n"

text \<open>The rectangles of \<open>m\<close> columns, from \<open>x\<close> eastwards.\<close>

primrec grid ::
  "(real \<Rightarrow> bool) \<Rightarrow> rect \<Rightarrow> real \<Rightarrow> real \<Rightarrow> real \<Rightarrow> nat \<Rightarrow> rect list" where
  "grid skip wb tw th x 0 = []"
| "grid skip wb tw th x (Suc m) =
     column skip wb tw th x (south wb) (steps (south wb) (north wb) th)
       @ grid skip wb tw th (x + tw) m"

section \<open>The image fetcher\<close>

text \<open>
  Exceptions are values. \<open>NameError\<close> carries the name that is not bound.
\<close>

datatype py_error =
    NameError string
  | AuthenticationFailed string
  | RequestFailed
  | ValueError
  | ZeroDivisionError

text \<open>
  The rendering service is outside the program. One call of \<open>requests.post\<close> on the
  process URL, followed by \<open>Image.open\<close> on the body, has one of these outcomes:
  \<open>Response c im\<close> is a response with status code \<open>c\<close> whose body \<open>Image.open\<close>
  reads as the image \<open>im\<close> (\<open>None\<close> when \<open>Image.open\<close> raises: it is called only
  for status 200); \<open>RequestException\<close> is \<open>requests.post\<close> raising (network error,
  timeout).
\<close>

datatype 'img outcome = Response int "'img option" | RequestException

text \<open>What the program does to the outside, in order: requests and sleeps.\<close>

datatype event = Post rect | Sleep int

text \<open>
  The outside world is a state \<open>'w\<close> that each request may change; the provider is a
  function from the state and the bounds of the request (the payload is a function of
  the bounds) to the outcome and the new state.
\<close>

type_synonym ('w, 'img) provider = "'w \<Rightarrow> rect \<Rightarrow> 'img outcome \<times> 'w"

record 'w io =
  world :: 'w
  trace :: "event list"

definition sleep :: "int \<Rightarrow> ('w, 'z) io_scheme \<Rightarrow> ('w, 'z) io_scheme" where
  "sleep seconds s = s\<lparr>trace := trace s @ [Sleep seconds]\<rparr>"

definition request ::
  "('w, 'img) provider \<Rightarrow> rect \<Rightarrow> ('w, 'z) io_scheme \<Rightarrow> 'img outcome \<times> ('w, 'z) io_scheme" where
  "request post tile_bounds s =
     (case post (world s) tile_bounds of
        (out, w) \<Rightarrow> (out, s\<lparr>world := w, trace := trace s @ [Post tile_bounds]\<rparr>))"

text \<open>
  The loop of lines 177 to 198, \<open>for attempt in range(retries)\<close>, over the attempts
  that are left. Status 200 returns the image; when \<open>Image.open\<close> raises there, the
  \<open>except\<close> branch runs, as it does when the request raises: it sleeps only if
  \<open>attempt < retries - 1\<close>. Status 429 sleeps \<open>2 ** attempt\<close> with no such test. Any
  other status goes to the next attempt at once. After the last attempt: \<open>None\<close>.
\<close>

fun fetch_attempts ::
  "('w, 'img) provider \<Rightarrow> rect \<Rightarrow> int \<Rightarrow> int list \<Rightarrow> ('w, 'z) io_scheme
     \<Rightarrow> 'img option \<times> ('w, 'z) io_scheme" where
  "fetch_attempts post tile_bounds retries [] s = (None, s)"
| "fetch_attempts post tile_bounds retries (attempt # rest) s =
     (case request post tile_bounds s of
        (Response status_code opened, s1) \<Rightarrow>
          if status_code = 200 then
            (case opened of
               Some img \<Rightarrow> (Some img, s1)
             | None \<Rightarrow>
                 fetch_attempts post tile_bounds retries rest
                   (if attempt < retries - 1 then sleep (2 ^ nat attempt) s1 else s1))
          else if status_code = 429 then
            fetch_attempts post tile_bounds retries rest (sleep (2 ^ nat attempt) s1)
          else fetch_attempts post tile_bounds retries rest s1
      | (RequestException, s1) \<Rightarrow>
          fetch_attempts post tile_bounds retries rest
            (if attempt < retries - 1 then sleep (2 ^ nat attempt) s1 else s1))"

text \<open>\<open>fetch_tile_image(self, tile_bounds, retries=3)\<close>; \<open>range(retries)\<close> is \<open>[0..retries - 1]\<close>.\<close>

definition fetch_tile_image ::
  "('w, 'img) provider \<Rightarrow> rect \<Rightarrow> int \<Rightarrow> ('w, 'z) io_scheme \<Rightarrow> 'img option \<times> ('w, 'z) io_scheme" where
  "fetch_tile_image post tile_bounds retries s =
     fetch_attempts post tile_bounds retries [0..retries - 1] s"

text \<open>Two provider stubs: one that always answers 429, one that always answers 500.\<close>

definition always_rate_limited :: "('w, 'img) provider" where
  "always_rate_limited w b = (Response 429 None, w)"

definition always_server_error :: "('w, 'img) provider" where
  "always_server_error w b = (Response 500 None, w)"

text \<open>The requests and the sleeps of a trace.\<close>

fun is_post :: "event \<Rightarrow> bool" where
  "is_post (Post b) = True"
| "is_post (Sleep n) = False"

definition attempts_of :: "event list \<Rightarrow> nat" where
  "attempts_of es = length (filter is_post es)"

fun sleeps_of :: "event list \<Rightarrow> int list" where
  "sleeps_of [] = []"
| "sleeps_of (Post b # es) = sleeps_of es"
| "sleeps_of (Sleep n # es) = n # sleeps_of es"

section \<open>The colour reducer\<close>

text \<open>
  \<open>np.array(image)\<close> of an RGB image: an array of shape \<open>(shape0, shape1, 3)\<close> of
  unsigned 8-bit values; \<open>pixel a y x c\<close> is \<open>a[y, x, c]\<close>.
\<close>

record img_array =
  shape0 :: nat
  shape1 :: nat
  pixel :: "nat \<Rightarrow> nat \<Rightarrow> nat \<Rightarrow> 8 word"

text \<open>
  The imaging library (PIL and \<open>np.array\<close>) is outside the program: images are values
  of a type \<open>'img\<close>, and the library is the record of the four operations the reducer
  calls. \<open>resize\<close> is \<open>image.resize(size, Image.Resampling.LANCZOS)\<close>; it may raise.
\<close>

record 'img pil =
  mode :: "'img \<Rightarrow> string"
  convert :: "'img \<Rightarrow> string \<Rightarrow> 'img"
  resize :: "'img \<Rightarrow> int \<times> int \<Rightarrow> py_error + 'img"
  to_array :: "'img \<Rightarrow> img_array"

text \<open>A float of numpy: a real number or \<open>nan\<close> (the mean of no values is \<open>nan\<close>).\<close>

datatype np_float = Finite real | NaN

definition np_mean :: "real list \<Rightarrow> np_float" where
  "np_mean xs = (if xs = [] then NaN else Finite (sum_list xs / real (length xs)))"

text \<open>Rounding to the nearest integer, a tie going to the even one.\<close>

definition round_half_even :: "real \<Rightarrow> int" where
  "round_half_even x =
     (let f = \<lfloor>x\<rfloor>; d = x - of_int f
      in if d < 1 / 2 then f else if 1 / 2 < d then f + 1 else if even f then f else f + 1)"

text \<open>\<open>round(v / 255, 3)\<close> of line 233.\<close>

definition round_ndigits :: "real \<Rightarrow> nat \<Rightarrow> real" where
  "round_ndigits x n = of_int (round_half_even (x * 10 ^ n)) / 10 ^ n"

fun normalise :: "np_float \<Rightarrow> np_float" where
  "normalise (Finite m) = Finite (round_ndigits (m / 255) 3)"
| "normalise NaN = NaN"

text \<open>
  The positions of \<open>img_array[y_start:y_end, x_start:x_end]\<close>, row by row. A slice of
  numpy stops at the end of the array.
\<close>

definition slice_positions :: "img_array \<Rightarrow> int \<Rightarrow> int \<Rightarrow> int \<Rightarrow> int \<Rightarrow> (nat \<times> nat) list" where
  "slice_positions a y_start y_end x_start x_end =
     List.product [min (nat y_start) (shape0 a)..<min (nat y_end) (shape0 a)]
       [min (nat x_start) (shape1 a)..<min (nat x_end) (shape1 a)]"

text \<open>The positions of the cell \<open>(i, j)\<close>, lines 221 to 226.\<close>

definition cell_positions :: "img_array \<Rightarrow> int \<Rightarrow> int \<Rightarrow> int \<Rightarrow> int \<Rightarrow> (nat \<times> nat) list" where
  "cell_positions a cell_height cell_width i j =
     (let y_start = i * cell_height;
          y_end = (i + 1) * cell_height;
          x_start = j * cell_width;
          x_end = (j + 1) * cell_width
      in slice_positions a y_start y_end x_start x_end)"

text \<open>\<open>np.mean(cell.reshape(-1, 3), axis=0)\<close>, channel \<open>c\<close>.\<close>

definition mean_color :: "img_array \<Rightarrow> (nat \<times> nat) list \<Rightarrow> nat \<Rightarrow> np_float" where
  "mean_color a ps c = np_mean (map (\<lambda>(y, x). real (unat (pixel a y x c))) ps)"

text \<open>The list \<open>roblox_color\<close> of lines 232 to 236.\<close>

definition roblox_color :: "img_array \<Rightarrow> (nat \<times> nat) list \<Rightarrow> np_float list" where
  "roblox_color a ps =
     [normalise (mean_color a ps 0), normalise (mean_color a ps 1), normalise (mean_color a ps 2)]"

text \<open>Lines 205 to 207: convert to RGB if needed.\<close>

definition to_rgb :: "'img pil \<Rightarrow> 'img \<Rightarrow> 'img" where
  "to_rgb P img = (if mode P img \<noteq> ''RGB'' then convert P img ''RGB'' else img)"

text \<open>The two loops of lines 217 to 238 on the array of the resized image.\<close>

definition color_grid :: "img_array \<Rightarrow> int \<Rightarrow> py_error + np_float list list list" where
  "color_grid img_array grid_size =
     (if grid_size = 0 then Inl ZeroDivisionError
      else
        let cell_height = int (shape0 img_array) div grid_size;
            cell_width = int (shape1 img_array) div grid_size
        in Inr (map (\<lambda>i. map (\<lambda>j. roblox_color img_array
                                   (cell_positions img_array cell_height cell_width i j))
                           [0..grid_size - 1])
                  [0..grid_size - 1]))"

text \<open>
  \<open>image_to_dominant_color(self, image, grid_size=4)\<close>. The parameter \<open>image\<close> is
  \<open>img\<close> here (\<open>image\<close> is a constant of HOL).
\<close>

definition image_to_dominant_color ::
  "'img pil \<Rightarrow> 'img option \<Rightarrow> int \<Rightarrow> py_error + np_float list list list option" where
  "image_to_dominant_color P img grid_size =
     (case img of
        None \<Rightarrow> Inr None
      | Some im \<Rightarrow>
          (case resize P (to_rgb P im) (grid_size * 16, grid_size * 16) of
             Inl e \<Rightarrow> Inl e
           | Inr resized \<Rightarrow>
               (case color_grid (to_array P resized) grid_size of
                  Inl e \<Rightarrow> Inl e
                | Inr colors \<Rightarrow> Inr (Some colors))))"

text \<open>
  What the reducer takes from the library. The resized image has the size that was
  asked for, whenever that size is positive.
\<close>

definition resize_exact :: "'img pil \<Rightarrow> bool" where
  "resize_exact P \<longleftrightarrow>
     (\<forall>im w h. 0 < w \<and> 0 < h \<longrightarrow>
        (\<exists>r. resize P im (w, h) = Inr r
           \<and> shape0 (to_array P r) = nat h \<and> shape1 (to_array P r) = nat w))"

text \<open>A channel value between 0 and 1 with at most three decimal places.\<close>

fun unit_3dp :: "np_float \<Rightarrow> bool" where
  "unit_3dp (Finite v) \<longleftrightarrow> 0 \<le> v \<and> v \<le> 1 \<and> of_int \<lfloor>v * 1000\<rfloor> = v * 1000"
| "unit_3dp NaN \<longleftrightarrow> False"

text \<open>
  An array of one colour (with at least one pixel), and a library whose resampling
  keeps one colour.
\<close>

definition uniform :: "img_array \<Rightarrow> (nat \<Rightarrow> 8 word) \<Rightarrow> bool" where
  "uniform a col \<longleftrightarrow>
     0 < shape0 a \<and> 0 < shape1 a
     \<and> (\<forall>y x c. y < shape0 a \<and> x < shape1 a \<and> c < 3 \<longrightarrow> pixel a y x c = col c)"

definition resize_keeps_uniform :: "'img pil \<Rightarrow> bool" where
  "resize_keeps_uniform P \<longleftrightarrow>
     (\<forall>im size r col. resize P im size = Inr r \<and> uniform (to_array P im) col
        \<longrightarrow> uniform (to_array P r) col)"

text \<open>
  A small library to run the reducer on: an image is its array, every image is RGB,
  and resizing takes the nearest pixel.
\<close>

definition nearest :: "img_array pil" where
  "nearest =
     \<lparr>mode = (\<lambda>im. ''RGB''),
      convert = (\<lambda>im m. im),
      resize = (\<lambda>im (w, h).
        if w \<le> 0 \<or> h \<le> 0 then Inl ValueError
        else Inr \<lparr>shape0 = nat h, shape1 = nat w,
                  pixel = (\<lambda>y x c. pixel im (y * shape0 im div nat h) (x * shape1 im div nat w) c)\<rparr>),
      to_array = (\<lambda>im. im)\<rparr>"

definition plain :: "nat \<Rightarrow> nat \<Rightarrow> (nat \<Rightarrow> 8 word) \<Rightarrow> img_array" where
  "plain h w col = \<lparr>shape0 = h, shape1 = w, pixel = (\<lambda>y x c. col c)\<rparr>"

section \<open>Properties of the partitioner\<close>

subsection \<open>Counting cursor positions\<close>

lemma steps_0: "\<not> a < b \<Longrightarrow> 0 < d \<Longrightarrow> steps a b d = 0"
  by (simp add: steps_def divide_nonpos_pos)

lemma steps_Suc:
  assumes "a < b" "0 < d"
  shows "steps a b d = Suc (steps (a + d) b d)"
proof -
  have e: "(b - (a + d)) / d = (b - a) / d - 1"
    using assms by (simp add: field_simps)
  have "0 < (b - a) / d" using assms by simp
  then have "0 < \<lceil>(b - a) / d\<rceil>" by simp
  then show ?thesis
    unfolding steps_def e by (simp add: nat_diff_distrib')
qed

lemma steps_reach: "0 < d \<Longrightarrow> b \<le> a + real (steps a b d) * d"
proof -
  assume d: "0 < d"
  have "(b - a) / d \<le> of_int \<lceil>(b - a) / d\<rceil>" by simp
  also have "\<dots> \<le> real (steps a b d)" by (simp add: steps_def)
  finally have "(b - a) / d \<le> real (steps a b d)" .
  then have "b - a \<le> real (steps a b d) * d" using d by (simp add: field_simps)
  then show ?thesis by simp
qed

subsection \<open>Numbering\<close>

lemma number_from_append:
  "number_from t (rs @ qs) = number_from t rs @ number_from (t + int (length rs)) qs"
  by (induction rs arbitrary: t) (simp_all add: add.assoc)

lemma length_number_from: "length (number_from t rs) = length rs"
  by (induction rs arbitrary: t) simp_all

lemma bounds_number_from: "map bounds (number_from t rs) = rs"
  by (induction rs arbitrary: t) simp_all

lemma ident_number_from:
  "map ident (number_from t rs) = map (\<lambda>i. t + int i) [0..<length rs]"
proof (induction rs arbitrary: t)
  case Nil
  then show ?case by simp
next
  case (Cons r rs)
  have "map (\<lambda>i. t + int i) [0..<Suc (length rs)]
      = t # map (\<lambda>i. t + 1 + int i) [0..<length rs]"
    by (simp add: upt_conv_Cons map_Suc_upt [symmetric] del: upt_Suc)
  then show ?case using Cons by simp
qed

subsection \<open>The loops return, and what they return\<close>

lemma inner_loop_column:
  assumes "0 < th"
  shows "inner_loop skip wb tw th x y tid tiles =
     Some (tid + int (length (column skip wb tw th x y (steps y (north wb) th))),
           tiles @ number_from tid (column skip wb tw th x y (steps y (north wb) th)))"
proof (induction "steps y (north wb) th" arbitrary: y tid tiles)
  case 0
  then have "\<not> y < north wb" using steps_Suc [OF _ assms, of y "north wb"] by auto
  then show ?case using 0 [symmetric] by (subst inner_loop.simps) simp
next
  case (Suc n)
  then have lt: "y < north wb" using steps_0 [OF _ assms, of y "north wb"] by auto
  then have n: "n = steps (y + th) (north wb) th"
    using steps_Suc [OF lt assms] Suc(2) by simp
  show ?case
    using lt Suc(1) [OF n] Suc(2) [symmetric] n
    by (subst inner_loop.simps) (simp add: new_tile_def number_from_append)
qed

lemma outer_loop_grid:
  assumes "0 < tw" "0 < th"
  shows "outer_loop skip wb tw th x tid tiles =
     Some (tiles @ number_from tid (grid skip wb tw th x (steps x (east wb) tw)))"
proof (induction "steps x (east wb) tw" arbitrary: x tid tiles)
  case 0
  then have "\<not> x < east wb" using steps_Suc [OF _ assms(1), of x "east wb"] by auto
  then show ?case using 0 [symmetric] by (subst outer_loop.simps) simp
next
  case (Suc m)
  then have lt: "x < east wb" using steps_0 [OF _ assms(1), of x "east wb"] by auto
  then have m: "m = steps (x + tw) (east wb) tw"
    using steps_Suc [OF lt assms(1)] Suc(2) by simp
  show ?case
    using lt Suc(1) [OF m] Suc(2) [symmetric] m
    by (subst outer_loop.simps) (simp add: inner_loop_column [OF assms(2)] number_from_append)
qed

lemma sweep_grid:
  assumes "0 < tw" "0 < th"
  shows "sweep skip wb tw th =
     Some (number_from 0 (grid skip wb tw th (west wb) (steps (west wb) (east wb) tw)))"
  by (simp add: sweep_def outer_loop_grid [OF assms])

lemma get_world_tiles_grid:
  assumes "0 < resolution"
  shows "get_world_tiles resolution =
     Some (number_from 0 (grid polar world_bounds (real_of_int (resolution * 1000))
        (real_of_int (resolution * 1000)) (west world_bounds)
        (steps (west world_bounds) (east world_bounds) (real_of_int (resolution * 1000)))))"
  using assms by (simp add: get_world_tiles_def Let_def sweep_grid)

subsection \<open>The rectangles of a column and of the grid\<close>

lemma steps_below:
  assumes "0 < d" "k < steps a b d"
  shows "a + real k * d < b"
proof -
  have "int k < \<lceil>(b - a) / d\<rceil>" using assms(2) by (simp add: steps_def)
  then have "real k < (b - a) / d" by (simp add: less_ceiling_iff)
  then have "real k * d < b - a" using assms(1) by (simp add: field_simps)
  then show ?thesis by simp
qed

lemma column_set:
  "r \<in> set (column skip wb tw th x y n) \<Longrightarrow>
     \<exists>k<n. r = cell wb tw th x (y + real k * th) \<and> \<not> skip (y + real k * th)"
proof (induction n arbitrary: y)
  case 0
  then show ?case by simp
next
  case (Suc n)
  show ?case
  proof (cases "r \<in> set (column skip wb tw th x (y + th) n)")
    case True
    from Suc.IH [OF True] obtain k where k: "k < n"
      "r = cell wb tw th x (y + th + real k * th)" "\<not> skip (y + th + real k * th)" by blast
    have e: "y + th + real k * th = y + real (Suc k) * th" by (simp add: algebra_simps)
    show ?thesis using k unfolding e by (intro exI [of _ "Suc k"]) simp
  next
    case False
    with Suc.prems have "r = cell wb tw th x y" "\<not> skip y" by (auto split: if_splits)
    then show ?thesis by (intro exI [of _ 0]) simp
  qed
qed

lemma grid_set:
  "r \<in> set (grid skip wb tw th x m) \<Longrightarrow>
     \<exists>i k. i < m \<and> k < steps (south wb) (north wb) th
        \<and> r = cell wb tw th (x + real i * tw) (south wb + real k * th)
        \<and> \<not> skip (south wb + real k * th)"
proof (induction m arbitrary: x)
  case 0
  then show ?case by simp
next
  case (Suc m)
  show ?case
  proof (cases "r \<in> set (grid skip wb tw th (x + tw) m)")
    case True
    from Suc.IH [OF True] obtain i k where ik: "i < m" "k < steps (south wb) (north wb) th"
      "r = cell wb tw th (x + tw + real i * tw) (south wb + real k * th)"
      "\<not> skip (south wb + real k * th)" by blast
    have e: "x + tw + real i * tw = x + real (Suc i) * tw" by (simp add: algebra_simps)
    show ?thesis using ik unfolding e by (intro exI [of _ "Suc i"] exI [of _ k]) simp
  next
    case False
    with Suc.prems have "r \<in> set (column skip wb tw th x (south wb) (steps (south wb) (north wb) th))"
      by simp
    from column_set [OF this] obtain k where "k < steps (south wb) (north wb) th"
      "r = cell wb tw th x (south wb + real k * th)" "\<not> skip (south wb + real k * th)" by blast
    then show ?thesis by (intro exI [of _ 0] exI [of _ k]) simp
  qed
qed

lemma column_filter:
  "column skip wb tw th x y n =
     filter (\<lambda>r. \<not> skip (south r)) (column (\<lambda>y. False) wb tw th x y n)"
  by (induction n arbitrary: y) (simp_all add: cell_def)

lemma grid_filter:
  "grid skip wb tw th x m =
     filter (\<lambda>r. \<not> skip (south r)) (grid (\<lambda>y. False) wb tw th x m)"
  by (induction m arbitrary: x) (simp_all add: column_filter [symmetric])

lemma interval_split:
  fixes t d y p b :: real
  assumes "0 < t" "0 \<le> d"
  shows "(y \<le> p \<and> p < min (y + t) b \<or> y + t \<le> p \<and> p < min (y + t + d) b)
     \<longleftrightarrow> (y \<le> p \<and> p < min (y + t + d) b)"
  using assms by (auto simp: min_def)

lemma column_cover:
  assumes "0 < th"
  shows "(\<exists>r\<in>set (column (\<lambda>y. False) wb tw th x y n). inside r px py) \<longleftrightarrow>
     x \<le> px \<and> px < min (x + tw) (east wb) \<and> y \<le> py \<and> py < min (y + real n * th) (north wb)"
proof (induction n arbitrary: y)
  case 0
  then show ?case by simp
next
  case (Suc n)
  have nn: "0 \<le> real n * th" using assms by simp
  have e: "y + th + real n * th = y + real (Suc n) * th" by (simp add: algebra_simps)
  have c: "inside (cell wb tw th x y) px py \<longleftrightarrow>
      x \<le> px \<and> px < min (x + tw) (east wb) \<and> y \<le> py \<and> py < min (y + th) (north wb)"
    by (simp add: inside_def cell_def)
  have "(\<exists>r\<in>set (column (\<lambda>y. False) wb tw th x y (Suc n)). inside r px py) \<longleftrightarrow>
      inside (cell wb tw th x y) px py
      \<or> (\<exists>r\<in>set (column (\<lambda>y. False) wb tw th x (y + th) n). inside r px py)"
    by auto
  also have "\<dots> \<longleftrightarrow> x \<le> px \<and> px < min (x + tw) (east wb) \<and>
      (y \<le> py \<and> py < min (y + th) (north wb)
       \<or> y + th \<le> py \<and> py < min (y + th + real n * th) (north wb))"
    unfolding c Suc.IH by blast
  also have "\<dots> \<longleftrightarrow> x \<le> px \<and> px < min (x + tw) (east wb) \<and>
      y \<le> py \<and> py < min (y + real (Suc n) * th) (north wb)"
    unfolding e [symmetric] using interval_split [OF assms nn, of y py "north wb"] by blast
  finally show ?case .
qed

lemma grid_cover:
  assumes "0 < tw" "0 < th"
  shows "(\<exists>r\<in>set (grid (\<lambda>y. False) wb tw th x m). inside r px py) \<longleftrightarrow>
     x \<le> px \<and> px < min (x + real m * tw) (east wb) \<and> south wb \<le> py \<and> py < north wb"
proof (induction m arbitrary: x)
  case 0
  then show ?case by simp
next
  case (Suc m)
  have nn: "0 \<le> real m * tw" using assms by simp
  have e: "x + tw + real m * tw = x + real (Suc m) * tw" by (simp add: algebra_simps)
  have r: "min (south wb + real (steps (south wb) (north wb) th) * th) (north wb) = north wb"
    using steps_reach [OF assms(2), of "north wb" "south wb"] by simp
  have "(\<exists>r\<in>set (grid (\<lambda>y. False) wb tw th x (Suc m)). inside r px py) \<longleftrightarrow>
      (\<exists>r\<in>set (column (\<lambda>y. False) wb tw th x (south wb) (steps (south wb) (north wb) th)).
          inside r px py)
      \<or> (\<exists>r\<in>set (grid (\<lambda>y. False) wb tw th (x + tw) m). inside r px py)"
    by auto
  also have "\<dots> \<longleftrightarrow> (x \<le> px \<and> px < min (x + tw) (east wb)
       \<or> x + tw \<le> px \<and> px < min (x + tw + real m * tw) (east wb))
      \<and> south wb \<le> py \<and> py < north wb"
    unfolding column_cover [OF assms(2)] Suc.IH r by blast
  also have "\<dots> \<longleftrightarrow> x \<le> px \<and> px < min (x + real (Suc m) * tw) (east wb)
      \<and> south wb \<le> py \<and> py < north wb"
    unfolding e [symmetric] using interval_split [OF assms(1) nn, of x px "east wb"] by blast
  finally show ?case .
qed

subsection \<open>Order and disjointness\<close>

lemma cell_simps:
  "west (cell wb tw th x y) = x" "south (cell wb tw th x y) = y"
  "east (cell wb tw th x y) = min (x + tw) (east wb)"
  "north (cell wb tw th x y) = min (y + th) (north wb)"
  by (simp_all add: cell_def)

lemma column_order:
  assumes "0 < th"
  shows "sorted_wrt (\<lambda>r q. emitted_before r q \<and> \<not> overlap r q) (column skip wb tw th x y n)"
proof (induction n arbitrary: y)
  case 0
  then show ?case by simp
next
  case (Suc n)
  have "emitted_before (cell wb tw th x y) q \<and> \<not> overlap (cell wb tw th x y) q"
    if "q \<in> set (column skip wb tw th x (y + th) n)" for q
  proof -
    from column_set [OF that] obtain k where k: "q = cell wb tw th x (y + th + real k * th)"
      by blast
    define d where "d = real k * th"
    have d: "0 \<le> d" using assms by (simp add: d_def)
    have q: "q = cell wb tw th x (y + th + d)" using k by (simp add: d_def)
    show ?thesis
      using assms d unfolding q by (simp add: emitted_before_def overlap_def cell_simps)
  qed
  then show ?case using Suc.IH by (simp add: sorted_wrt_append)
qed

lemma grid_order:
  assumes "0 < tw" "0 < th"
  shows "sorted_wrt (\<lambda>r q. emitted_before r q \<and> \<not> overlap r q) (grid skip wb tw th x m)"
proof (induction m arbitrary: x)
  case 0
  then show ?case by simp
next
  case (Suc m)
  have "emitted_before r q \<and> \<not> overlap r q"
    if "r \<in> set (column skip wb tw th x (south wb) (steps (south wb) (north wb) th))"
      and "q \<in> set (grid skip wb tw th (x + tw) m)" for r q
  proof -
    from column_set [OF that(1)] obtain k where r: "r = cell wb tw th x (south wb + real k * th)"
      by blast
    from grid_set [OF that(2)] obtain i j where
      ij: "q = cell wb tw th (x + tw + real i * tw) (south wb + real j * th)" by blast
    define d where "d = real i * tw"
    have d: "0 \<le> d" using assms by (simp add: d_def)
    have q: "q = cell wb tw th (x + tw + d) (south wb + real j * th)" using ij by (simp add: d_def)
    show ?thesis
      using assms d unfolding r q by (simp add: emitted_before_def overlap_def cell_simps)
  qed
  then show ?case using Suc.IH column_order [OF assms(2)] by (simp add: sorted_wrt_append)
qed

lemma sorted_wrt_weaken:
  "sorted_wrt P xs \<Longrightarrow> (\<And>x y. P x y \<Longrightarrow> Q x y) \<Longrightarrow> sorted_wrt Q xs"
  by (rule sorted_wrt_mono_rel) auto

lemma grid_inside_world:
  assumes "0 < tw" "0 < th" "r \<in> set (grid skip wb tw th (west wb) (steps (west wb) (east wb) tw))"
  shows "west wb \<le> west r \<and> west r < east r \<and> east r \<le> east wb
       \<and> south wb \<le> south r \<and> south r < north r \<and> north r \<le> north wb
       \<and> east r = min (west r + tw) (east wb) \<and> north r = min (south r + th) (north wb)
       \<and> \<not> skip (south r)"
proof -
  from grid_set [OF assms(3)] obtain i k where ik: "i < steps (west wb) (east wb) tw"
    "k < steps (south wb) (north wb) th"
    "r = cell wb tw th (west wb + real i * tw) (south wb + real k * th)"
    "\<not> skip (south wb + real k * th)" by blast
  define a where "a = west wb + real i * tw"
  define b where "b = south wb + real k * th"
  have "a < east wb" using steps_below [OF assms(1) ik(1)] by (simp add: a_def)
  moreover have "b < north wb" using steps_below [OF assms(2) ik(2)] by (simp add: b_def)
  moreover have "west wb \<le> a" "south wb \<le> b" using assms by (simp_all add: a_def b_def)
  moreover have "r = cell wb tw th a b" "\<not> skip b" using ik by (simp_all add: a_def b_def)
  ultimately show ?thesis using assms(1,2) by (simp add: cell_simps)
qed

subsection \<open>Tile ids\<close>

lemma inside_overlap: "inside r px py \<Longrightarrow> inside q px py \<Longrightarrow> overlap r q"
  by (auto simp: inside_def overlap_def)

lemma sweep_ids:
  assumes "sweep skip wb tw th = Some (number_from 0 rs)"
  shows "\<exists>ts. sweep skip wb tw th = Some ts \<and> map ident ts = map int [0..<length ts]
     \<and> map bounds ts = rs"
  using assms by (simp add: ident_number_from length_number_from bounds_number_from)

lemma ids_distinct_increasing:
  "distinct (map int [0..<n]) \<and> sorted_wrt (<) (map int [0..<n])"
  by (simp add: distinct_map sorted_wrt_map sorted_wrt_upt inj_on_def)

text \<open>
  C6. For every positive resolution the partitioner returns, and the ids of the tiles
  it returns are 0, 1, 2, ... in the order of the list: unique, contiguous from 0 and
  strictly increasing. The list is in emission order: by column from west to east and
  upwards within each column. A skipped position takes no id.
\<close>

theorem tile_ids_contiguous:
  assumes "0 < resolution"
  shows "\<exists>ts. get_world_tiles resolution = Some ts
     \<and> map ident ts = map int [0..<length ts]
     \<and> distinct (map ident ts) \<and> sorted_wrt (<) (map ident ts)
     \<and> sorted_wrt emitted_before (map bounds ts)"
proof -
  define tw where "tw = real_of_int (resolution * 1000)"
  define rs where "rs = grid polar world_bounds tw tw (west world_bounds)
     (steps (west world_bounds) (east world_bounds) tw)"
  have tw: "0 < tw" using assms by (simp add: tw_def)
  have g: "get_world_tiles resolution = Some (number_from 0 rs)"
    using get_world_tiles_grid [OF assms] by (simp add: rs_def tw_def)
  have "sorted_wrt emitted_before rs"
    unfolding rs_def by (rule sorted_wrt_weaken [OF grid_order [OF tw tw]]) simp
  then show ?thesis
    using ids_distinct_increasing [of "length rs"]
    by (simp add: g ident_number_from length_number_from bounds_number_from)
qed

lemma column_35000:
  "column polar world_bounds 35000000 35000000 x (- 20037508.34) (Suc (Suc 0))
     = [cell world_bounds 35000000 35000000 x 14962491.66]"
  by (simp add: polar_def)

lemma get_world_tiles_35000:
  "get_world_tiles 35000 =
     Some [\<lparr>ident = 0, bounds = \<lparr>west = - 20037508.34, east = 14962491.66,
                                 south = 14962491.66, north = 20037508.34\<rparr>\<rparr>,
           \<lparr>ident = 1, bounds = \<lparr>west = 14962491.66, east = 20037508.34,
                                 south = 14962491.66, north = 20037508.34\<rparr>\<rparr>]"
proof -
  have s: "steps (- 20037508.34) 20037508.34 35000000 = Suc (Suc 0)"
    by (simp add: steps_def)
  have "grid polar world_bounds 35000000 35000000 (- 20037508.34) (Suc (Suc 0))
      = [cell world_bounds 35000000 35000000 (- 20037508.34) 14962491.66,
         cell world_bounds 35000000 35000000 14962491.66 14962491.66]"
    using s column_35000 by (simp add: world_bounds_def)
  then show ?thesis
    using get_world_tiles_grid [of 35000] s by (simp add: world_bounds_def cell_def)
qed

theorem tile_ids_contiguous_witness:
  "(0::int) < 35000 \<and> map_option (map ident) (get_world_tiles 35000) = Some [0, 1]"
  using tile_ids_contiguous [of 35000] get_world_tiles_35000 by (simp add: upt_rec)

subsection \<open>Polar exclusion\<close>

text \<open>
  C2, as the code has it. The test of line 103 is on the vertical cursor, which is the
  south edge of the tile, not on its vertical center: no emitted tile has a south edge
  beyond the threshold. A position that fails the test is skipped and the cursor moves
  on: the emitted tiles are those cells of the sweep without the test whose south edge
  passes it, in the same order.
\<close>

theorem polar_test_on_south_edge:
  assumes "0 < resolution"
  shows "\<exists>ts full. get_world_tiles resolution = Some ts
     \<and> sweep (\<lambda>y. False) world_bounds (real_of_int (resolution * 1000))
          (real_of_int (resolution * 1000)) = Some full
     \<and> (\<forall>t\<in>set ts. \<bar>south (bounds t)\<bar> \<le> 15000000)
     \<and> map bounds ts = filter (\<lambda>r. \<not> \<bar>south r\<bar> > 15000000) (map bounds full)"
proof -
  define tw where "tw = real_of_int (resolution * 1000)"
  define m where "m = steps (west world_bounds) (east world_bounds) tw"
  have tw: "0 < tw" using assms by (simp add: tw_def)
  have g: "get_world_tiles resolution
      = Some (number_from 0 (grid polar world_bounds tw tw (west world_bounds) m))"
    using get_world_tiles_grid [OF assms] by (simp add: tw_def m_def)
  have f: "sweep (\<lambda>y. False) world_bounds tw tw
      = Some (number_from 0 (grid (\<lambda>y. False) world_bounds tw tw (west world_bounds) m))"
    using sweep_grid [OF tw tw] by (simp add: m_def)
  have "\<bar>south r\<bar> \<le> 15000000"
    if "r \<in> set (grid polar world_bounds tw tw (west world_bounds) m)" for r
    using grid_inside_world [OF tw tw that [unfolded m_def]] by (simp add: polar_def)
  then have "\<forall>t\<in>set (number_from 0 (grid polar world_bounds tw tw (west world_bounds) m)).
      \<bar>south (bounds t)\<bar> \<le> 15000000"
    using bounds_number_from [of 0 "grid polar world_bounds tw tw (west world_bounds) m"]
    by (metis (no_types, lifting) image_eqI list.set_map)
  moreover have "grid polar world_bounds tw tw (west world_bounds) m
      = filter (\<lambda>r. \<not> \<bar>south r\<bar> > 15000000)
          (grid (\<lambda>y. False) world_bounds tw tw (west world_bounds) m)"
    using grid_filter [of polar] by (simp add: polar_def)
  ultimately show ?thesis
    unfolding tw_def [symmetric] g f by (simp add: bounds_number_from)
qed

theorem polar_test_on_south_edge_witness:
  "(0::int) < 35000 \<and>
   (\<exists>ts full. get_world_tiles 35000 = Some ts
      \<and> sweep (\<lambda>y. False) world_bounds 35000000 35000000 = Some full
      \<and> list_all (\<lambda>t. \<bar>south (bounds t)\<bar> \<le> 15000000) ts
      \<and> map bounds ts = filter (\<lambda>r. \<not> \<bar>south r\<bar> > 15000000) (map bounds full))"
  using polar_test_on_south_edge [of 35000] by (simp add: list_all_iff)

theorem polar_center_counterexample:
  "map_option (map (vertical_center \<circ> bounds)) (get_world_tiles 35000)
      = Some [17500000, 17500000]
   \<and> \<not> \<bar>17500000 :: real\<bar> \<le> 15000000"
  by (simp add: get_world_tiles_35000 vertical_center_def)

subsection \<open>Coverage\<close>

text \<open>
  C4. Ignoring polar exclusion (the sweep with a skip test that never holds), for every
  world rectangle and positive tile width and height the sweep returns; every tile has
  its east and north edge clamped to the world boundary and lies within the world; no
  point lies in two tiles; and the points of the tiles are exactly the points of the
  world rectangle.
\<close>

theorem partition_covers_world:
  assumes "0 < tw" "0 < th"
  shows "\<exists>ts. sweep (\<lambda>y. False) wb tw th = Some ts
     \<and> (\<forall>t\<in>set ts.
          east (bounds t) = min (west (bounds t) + tw) (east wb)
        \<and> north (bounds t) = min (south (bounds t) + th) (north wb)
        \<and> east (bounds t) \<le> east wb \<and> north (bounds t) \<le> north wb)
     \<and> (\<forall>i j px py. i < j \<and> j < length ts \<longrightarrow>
          \<not> (inside (bounds (ts ! i)) px py \<and> inside (bounds (ts ! j)) px py))
     \<and> (\<forall>px py. inside wb px py \<longleftrightarrow> (\<exists>t\<in>set ts. inside (bounds t) px py))"
proof -
  define m where "m = steps (west wb) (east wb) tw"
  define rs where "rs = grid (\<lambda>y. False) wb tw th (west wb) m"
  define ts where "ts = number_from 0 rs"
  have s: "sweep (\<lambda>y. False) wb tw th = Some ts"
    using sweep_grid [OF assms] by (simp add: ts_def rs_def m_def)
  have b: "map bounds ts = rs" by (simp add: ts_def bounds_number_from)
  have len: "length ts = length rs" by (simp add: ts_def length_number_from)
  have nth: "bounds (ts ! i) = rs ! i" if "i < length ts" for i
    using that b by (metis nth_map)
  have mem: "bounds t \<in> set rs" if "t \<in> set ts" for t
    using that b by (metis image_eqI list.set_map)
  have clamp: "\<forall>t\<in>set ts.
          east (bounds t) = min (west (bounds t) + tw) (east wb)
        \<and> north (bounds t) = min (south (bounds t) + th) (north wb)
        \<and> east (bounds t) \<le> east wb \<and> north (bounds t) \<le> north wb"
  proof
    fix t assume "t \<in> set ts"
    then have "bounds t \<in> set (grid (\<lambda>y. False) wb tw th (west wb) (steps (west wb) (east wb) tw))"
      using mem by (simp add: rs_def m_def)
    from grid_inside_world [OF assms this]
    show "east (bounds t) = min (west (bounds t) + tw) (east wb)
        \<and> north (bounds t) = min (south (bounds t) + th) (north wb)
        \<and> east (bounds t) \<le> east wb \<and> north (bounds t) \<le> north wb" by simp
  qed
  have "sorted_wrt (\<lambda>r q. \<not> overlap r q) rs"
    unfolding rs_def by (rule sorted_wrt_weaken [OF grid_order [OF assms]]) simp
  then have d: "\<not> overlap (rs ! i) (rs ! j)" if "i < j" "j < length rs" for i j
    using that by (simp add: sorted_wrt_iff_nth_less)
  have disj: "\<forall>i j px py. i < j \<and> j < length ts \<longrightarrow>
          \<not> (inside (bounds (ts ! i)) px py \<and> inside (bounds (ts ! j)) px py)"
  proof (intro allI impI)
    fix i j px py assume ij: "i < j \<and> j < length ts"
    then have "\<not> overlap (bounds (ts ! i)) (bounds (ts ! j))"
      using d [of i j] nth [of i] nth [of j] len by simp
    then show "\<not> (inside (bounds (ts ! i)) px py \<and> inside (bounds (ts ! j)) px py)"
      using inside_overlap by blast
  qed
  have r: "min (west wb + real m * tw) (east wb) = east wb"
    using steps_reach [OF assms(1), of "east wb" "west wb"] by (simp add: m_def)
  have "(\<exists>r\<in>set rs. inside r px py) \<longleftrightarrow> inside wb px py" for px py
    unfolding rs_def grid_cover [OF assms] r by (auto simp: inside_def)
  moreover have "(\<exists>t\<in>set ts. inside (bounds t) px py) \<longleftrightarrow> (\<exists>r\<in>set rs. inside r px py)" for px py
    using b by (metis (no_types, lifting) image_iff list.set_map)
  ultimately have cover: "\<forall>px py. inside wb px py \<longleftrightarrow> (\<exists>t\<in>set ts. inside (bounds t) px py)"
    by simp
  show ?thesis using s clamp disj cover by blast
qed

theorem partition_covers_world_witness:
  "(0::real) < 10 \<and>
   (\<exists>ts. sweep (\<lambda>y. False) \<lparr>west = - 10, east = 10, south = - 10, north = 10\<rparr> 10 10 = Some ts
     \<and> list_all (\<lambda>t. east (bounds t) = min (west (bounds t) + 10) 10
                   \<and> north (bounds t) = min (south (bounds t) + 10) 10) ts
     \<and> (\<exists>t\<in>set ts. inside (bounds t) 3 (- 4))
     \<and> \<not> (\<exists>t\<in>set ts. inside (bounds t) 10 0))"
proof -
  have h: "(0::real) < 10" by simp
  from partition_covers_world [OF h h, of "\<lparr>west = - 10, east = 10, south = - 10, north = 10\<rparr>"]
  obtain ts where ts: "sweep (\<lambda>y. False) \<lparr>west = - 10, east = 10, south = - 10, north = 10\<rparr> 10 10 = Some ts"
    "\<forall>t\<in>set ts. east (bounds t) = min (west (bounds t) + 10) (east \<lparr>west = - 10, east = 10, south = - 10, north = 10\<rparr>)
        \<and> north (bounds t) = min (south (bounds t) + 10) (north \<lparr>west = - 10, east = 10, south = - 10, north = 10\<rparr>)
        \<and> east (bounds t) \<le> east \<lparr>west = - 10, east = 10, south = - 10, north = 10\<rparr>
        \<and> north (bounds t) \<le> north \<lparr>west = - 10, east = 10, south = - 10, north = 10\<rparr>"
    "\<forall>px py. inside \<lparr>west = - 10, east = 10, south = - 10, north = 10\<rparr> px py
        \<longleftrightarrow> (\<exists>t\<in>set ts. inside (bounds t) px py)"
    by blast
  have a: "inside \<lparr>west = - 10, east = 10, south = - 10, north = 10\<rparr> 3 (- 4)"
    and b: "\<not> inside \<lparr>west = - 10, east = 10, south = - 10, north = 10\<rparr> 10 0"
    by (simp_all add: inside_def)
  show ?thesis using h ts a b by (auto simp: list_all_iff)
qed

section \<open>Properties of the image fetcher\<close>

lemma fetch_attempts_rate_limited:
  assumes "\<forall>w b. \<exists>im w'. post w b = (Response 429 im, w')"
  shows "fst (fetch_attempts post b retries as s) = None
     \<and> trace (snd (fetch_attempts post b retries as s))
         = trace s @ concat (map (\<lambda>a. [Post b, Sleep (2 ^ nat a)]) as)"
proof (induction as arbitrary: s)
  case Nil
  then show ?case by simp
next
  case (Cons a as)
  obtain im w' where p: "post (world s) b = (Response 429 im, w')"
    using assms by blast
  show ?case
    using Cons [of "sleep (2 ^ nat a) (s\<lparr>world := w', trace := trace s @ [Post b]\<rparr>)"]
    by (simp add: request_def p sleep_def)
qed

lemma sleeps_of_append: "sleeps_of (es @ fs) = sleeps_of es @ sleeps_of fs"
  by (induction es rule: sleeps_of.induct) simp_all

lemma attempts_of_append: "attempts_of (es @ fs) = attempts_of es + attempts_of fs"
  by (simp add: attempts_of_def)

lemma rate_limited_counts:
  "attempts_of (concat (map (\<lambda>a. [Post b, Sleep (2 ^ nat a)]) as)) = length as
   \<and> sleeps_of (concat (map (\<lambda>a. [Post b, Sleep (2 ^ nat a)]) as)) = map (\<lambda>a. 2 ^ nat a) as"
  by (induction as) (simp_all add: attempts_of_def)

text \<open>
  C3, the general shape. Against a provider that answers 429 to every request, the
  fetcher returns \<open>None\<close> after one request per attempt of \<open>range(retries)\<close>, and each
  request, the last one too, is followed by a sleep of \<open>2 ** attempt\<close>.
\<close>

lemma fetch_rate_limited:
  assumes "\<forall>w b. \<exists>im w'. post w b = (Response 429 im, w')"
  shows "fst (fetch_tile_image post b retries s) = None
     \<and> trace (snd (fetch_tile_image post b retries s))
         = trace s @ concat (map (\<lambda>a. [Post b, Sleep (2 ^ nat a)]) [0..retries - 1])"
  unfolding fetch_tile_image_def using fetch_attempts_rate_limited [OF assms] by blast

lemma upto_3: "[0..(2::int)] = [0, 1, 2]"
  by (simp add: upto_rec1)

text \<open>
  C3 at the default of three attempts: three requests, sleeps of 1, 2 and 4, the last
  sleep after the last request, then \<open>None\<close>.
\<close>

theorem rate_limited_sleeps_after_last_attempt:
  "fetch_tile_image always_rate_limited b 3 \<lparr>world = w, trace = []\<rparr>
     = (None, \<lparr>world = w, trace = [Post b, Sleep 1, Post b, Sleep 2, Post b, Sleep 4]\<rparr>)"
  by (simp add: fetch_tile_image_def upto_3 request_def always_rate_limited_def sleep_def)

section \<open>Properties of the colour reducer\<close>

text \<open>C9. An absent image gives an absent grid, whatever the grid size and the library.\<close>

theorem reduce_absent: "image_to_dominant_color P None grid_size = Inr None"
  by (simp add: image_to_dominant_color_def)

subsection \<open>Means and rounding\<close>

lemma round_half_even_bounds:
  assumes "0 \<le> x" "x \<le> real_of_int n"
  shows "0 \<le> round_half_even x \<and> round_half_even x \<le> n"
proof -
  have f0: "0 \<le> \<lfloor>x\<rfloor>" using assms(1) by simp
  have fn: "\<lfloor>x\<rfloor> \<le> n" using assms(2) by (simp add: floor_le_iff)
  have "\<lfloor>x\<rfloor> + 1 \<le> n" if "1 / 2 \<le> x - of_int \<lfloor>x\<rfloor>"
  proof -
    have "of_int \<lfloor>x\<rfloor> < real_of_int n" using that assms(2) by linarith
    then show ?thesis by simp
  qed
  then show ?thesis
    using f0 fn unfolding round_half_even_def Let_def by (auto simp: not_less)
qed

lemma round_ndigits_unit:
  assumes "0 \<le> x" "x \<le> 1"
  shows "unit_3dp (Finite (round_ndigits x 3))"
proof -
  have "0 \<le> x * 1000" "x * 1000 \<le> real_of_int 1000" using assms by simp_all
  from round_half_even_bounds [OF this]
  show ?thesis by (simp add: round_ndigits_def)
qed

lemma sum_list_bounds:
  assumes "\<forall>p\<in>set ps. 0 \<le> f p \<and> f p \<le> (c::real)"
  shows "0 \<le> sum_list (map f ps) \<and> sum_list (map f ps) \<le> c * real (length ps)"
  using assms by (induction ps) (auto simp: algebra_simps)

lemma unat_byte: "0 \<le> real (unat (w :: 8 word)) \<and> real (unat w) \<le> 255"
proof -
  have "unat w < 2 ^ LENGTH(8)" by (rule unsigned_less)
  then have "unat w \<le> 255" by simp
  then have "real (unat w) \<le> real 255" by (simp only: of_nat_le_iff)
  then show ?thesis by (simp del: of_nat_unat)
qed

lemma mean_color_range:
  assumes "ps \<noteq> []"
  shows "\<exists>m. mean_color a ps c = Finite m \<and> 0 \<le> m \<and> m \<le> 255"
proof -
  have "\<forall>p\<in>set ps. 0 \<le> (\<lambda>(y, x). real (unat (pixel a y x c))) p
      \<and> (\<lambda>(y, x). real (unat (pixel a y x c))) p \<le> 255"
    using unat_byte by (auto simp: case_prod_beta simp del: of_nat_unat)
  from sum_list_bounds [OF this]
  have s: "0 \<le> sum_list (map (\<lambda>(y, x). real (unat (pixel a y x c))) ps)"
    "sum_list (map (\<lambda>(y, x). real (unat (pixel a y x c))) ps) \<le> 255 * real (length ps)"
    by simp_all
  have l: "0 < real (length ps)" using assms by simp
  have "sum_list (map (\<lambda>(y, x). real (unat (pixel a y x c))) ps) / real (length ps) \<le> 255"
    using s(2) l by (simp add: pos_divide_le_eq)
  then show ?thesis using assms s(1) by (simp add: mean_color_def np_mean_def)
qed

lemma normalise_mean_unit:
  assumes "ps \<noteq> []"
  shows "unit_3dp (normalise (mean_color a ps c))"
proof -
  from mean_color_range [OF assms] obtain m where
    m: "mean_color a ps c = Finite m" "0 \<le> m" "m \<le> 255" by blast
  have "0 \<le> m / 255" "m / 255 \<le> 1" using m by simp_all
  from round_ndigits_unit [OF this] show ?thesis by (simp add: m(1))
qed

lemma roblox_color_unit:
  assumes "ps \<noteq> []"
  shows "\<forall>v\<in>set (roblox_color a ps). unit_3dp v"
  using normalise_mean_unit [OF assms] by (simp add: roblox_color_def)

subsection \<open>Cells of the resized image\<close>

lemma set_slice_positions:
  "(y, x) \<in> set (slice_positions a y_start y_end x_start x_end) \<longleftrightarrow>
     min (nat y_start) (shape0 a) \<le> y \<and> y < min (nat y_end) (shape0 a)
     \<and> min (nat x_start) (shape1 a) \<le> x \<and> x < min (nat x_end) (shape1 a)"
  by (simp add: slice_positions_def)

lemma distinct_slice_positions: "distinct (slice_positions a y_start y_end x_start x_end)"
  by (simp add: slice_positions_def distinct_product)

lemma distinct_cell_positions: "distinct (cell_positions a ch cw i j)"
  by (simp add: cell_positions_def Let_def distinct_slice_positions)

lemma cell_positions_16:
  assumes "shape0 a = nat (g * 16)" "shape1 a = nat (g * 16)"
    and "0 \<le> i" "i < g" "0 \<le> j" "j < g"
  shows "cell_positions a 16 16 i j =
     List.product [16 * nat i..<16 * nat i + 16] [16 * nat j..<16 * nat j + 16]"
proof -
  have i: "nat (i * 16) = 16 * nat i" "nat ((i + 1) * 16) = 16 * nat i + 16"
    using assms(3) by (simp_all add: nat_mult_distrib nat_add_distrib algebra_simps)
  have j: "nat (j * 16) = 16 * nat j" "nat ((j + 1) * 16) = 16 * nat j + 16"
    using assms(5) by (simp_all add: nat_mult_distrib nat_add_distrib algebra_simps)
  have g: "nat (g * 16) = 16 * nat g"
    using assms(3,4) by (simp add: nat_mult_distrib)
  have "Suc (nat i) \<le> nat g" "Suc (nat j) \<le> nat g" using assms(3-6) by linarith+
  then have "16 * Suc (nat i) \<le> 16 * nat g" "16 * Suc (nat j) \<le> 16 * nat g"
    by (simp_all only: mult_le_mono2)
  then have le: "16 * nat i + 16 \<le> 16 * nat g" "16 * nat j + 16 \<le> 16 * nat g" by simp_all
  show ?thesis
    using le unfolding cell_positions_def Let_def slice_positions_def assms(1,2) i j g
    by (simp add: min_def)
qed

lemma cell_positions_16_nonempty:
  assumes "shape0 a = nat (g * 16)" "shape1 a = nat (g * 16)"
    and "0 \<le> i" "i < g" "0 \<le> j" "j < g"
  shows "cell_positions a 16 16 i j \<noteq> []" "length (cell_positions a 16 16 i j) = 256"
  unfolding cell_positions_16 [OF assms] by (simp_all add: length_product flip: length_0_conv)

lemma cell_size_16:
  assumes "0 < g"
  shows "int (nat (g * 16)) div g = 16"
  using assms by simp

lemma color_grid_16:
  assumes "shape0 a = nat (g * 16)" "shape1 a = nat (g * 16)" "0 < g"
  shows "color_grid a g =
     Inr (map (\<lambda>i. map (\<lambda>j. roblox_color a (cell_positions a 16 16 i j)) [0..g - 1]) [0..g - 1])"
  using assms(3) unfolding color_grid_def assms(1,2) cell_size_16 [OF assms(3)] by simp

text \<open>
  C7. With a library whose resize gives the size asked for, and a positive grid size,
  the reducer returns a grid of that many rows and columns, each colour has three
  channels, and every channel is a number between 0 and 1 with three decimal places.
\<close>

theorem channels_in_unit_interval:
  assumes "resize_exact P" "0 < grid_size"
  shows "\<exists>colors. image_to_dominant_color P (Some im) grid_size = Inr (Some colors)
     \<and> length colors = nat grid_size
     \<and> (\<forall>row\<in>set colors. length row = nat grid_size
          \<and> (\<forall>color\<in>set row. length color = 3 \<and> (\<forall>v\<in>set color. unit_3dp v)))"
proof -
  have "0 < grid_size * 16" using assms(2) by simp
  with assms(1) obtain r where r: "resize P (to_rgb P im) (grid_size * 16, grid_size * 16) = Inr r"
    "shape0 (to_array P r) = nat (grid_size * 16)" "shape1 (to_array P r) = nat (grid_size * 16)"
    unfolding resize_exact_def by blast
  define a where "a = to_array P r"
  define colors where "colors =
     map (\<lambda>i. map (\<lambda>j. roblox_color a (cell_positions a 16 16 i j)) [0..grid_size - 1])
       [0..grid_size - 1]"
  have sh: "shape0 a = nat (grid_size * 16)" "shape1 a = nat (grid_size * 16)"
    using r by (simp_all add: a_def)
  have res: "image_to_dominant_color P (Some im) grid_size = Inr (Some colors)"
    using color_grid_16 [OF sh assms(2)]
    by (simp add: image_to_dominant_color_def r a_def [symmetric] colors_def)
  have len: "length [0..grid_size - 1] = nat grid_size" by simp
  have cellok: "length (roblox_color a (cell_positions a 16 16 i j)) = 3
      \<and> (\<forall>v\<in>set (roblox_color a (cell_positions a 16 16 i j)). unit_3dp v)"
    if "i \<in> set [0..grid_size - 1]" "j \<in> set [0..grid_size - 1]" for i j
  proof -
    have "0 \<le> i" "i < grid_size" "0 \<le> j" "j < grid_size" using that by simp_all
    from cell_positions_16_nonempty(1) [OF sh this]
    show ?thesis using roblox_color_unit by (simp add: roblox_color_def)
  qed
  have "\<forall>row\<in>set colors. length row = nat grid_size
          \<and> (\<forall>color\<in>set row. length color = 3 \<and> (\<forall>v\<in>set color. unit_3dp v))"
    unfolding colors_def using cellok len by auto
  moreover have "length colors = nat grid_size" using len by (simp add: colors_def)
  ultimately show ?thesis using res by blast
qed

lemma in_block_iff: "16 * n \<le> y \<and> y < 16 * n + 16 \<longleftrightarrow> y div 16 = (n::nat)"
proof
  assume "16 * n \<le> y \<and> y < 16 * n + 16"
  then show "y div 16 = n" by (intro div_nat_eqI) simp_all
next
  assume h: "y div 16 = n"
  have "16 * (y div 16) \<le> y" by simp
  moreover have "y < 16 * (y div 16) + 16"
    using mod_less_divisor [of 16 y] mult_div_mod_eq [of 16 y] by linarith
  ultimately show "16 * n \<le> y \<and> y < 16 * n + 16" using h by simp
qed

lemma in_cell_iff:
  assumes "shape0 a = nat (g * 16)" "shape1 a = nat (g * 16)"
    and "0 \<le> i" "i < g" "0 \<le> j" "j < g"
  shows "(y, x) \<in> set (cell_positions a 16 16 i j) \<longleftrightarrow> y div 16 = nat i \<and> x div 16 = nat j"
  unfolding cell_positions_16 [OF assms] using in_block_iff [of "nat i" y] in_block_iff [of "nat j" x]
  by simp

lemma pixel_in_one_cell:
  assumes "shape0 a = nat (g * 16)" "shape1 a = nat (g * 16)"
    and "y < shape0 a" "x < shape1 a"
  shows "\<exists>!ij. ij \<in> set (List.product [0..g - 1] [0..g - 1])
     \<and> (y, x) \<in> set (cell_positions a 16 16 (fst ij) (snd ij))"
proof (rule ex1I [of _ "(int (y div 16), int (x div 16))"])
  have g: "0 < g" using assms(1,3) by (cases "0 < g") simp_all
  have "y < 16 * nat g" "x < 16 * nat g"
    using assms g by (simp_all add: nat_mult_distrib)
  then have "y div 16 < nat g" "x div 16 < nat g" by simp_all
  then have r: "0 \<le> int (y div 16)" "int (y div 16) < g" "0 \<le> int (x div 16)" "int (x div 16) < g"
    by simp_all
  show "(int (y div 16), int (x div 16)) \<in> set (List.product [0..g - 1] [0..g - 1])
     \<and> (y, x) \<in> set (cell_positions a 16 16 (fst (int (y div 16), int (x div 16)))
                        (snd (int (y div 16), int (x div 16))))"
    using r in_cell_iff [OF assms(1,2) r] by simp
next
  fix ij
  assume h: "ij \<in> set (List.product [0..g - 1] [0..g - 1])
     \<and> (y, x) \<in> set (cell_positions a 16 16 (fst ij) (snd ij))"
  then have r: "0 \<le> fst ij" "fst ij < g" "0 \<le> snd ij" "snd ij < g"
    by (cases ij, simp)+
  from h in_cell_iff [OF assms(1,2) r]
  have "y div 16 = nat (fst ij)" "x div 16 = nat (snd ij)" by simp_all
  then have "fst ij = int (y div 16)" "snd ij = int (x div 16)" using r by simp_all
  then show "ij = (int (y div 16), int (x div 16))" by (cases ij) simp
qed

text \<open>
  C10. With a library whose resize gives the size asked for, and a positive grid size:
  the resize to \<open>grid_size * 16\<close> per side succeeds, the two integer divisions give
  cells of 16 by 16, the cells leave no remainder (\<open>grid_size * 16\<close> is the side of the
  array), and every pixel of the resized image is in the slice of exactly one cell
  \<open>(i, j)\<close> of the two loops, once.
\<close>

theorem cells_are_16_by_16:
  assumes "resize_exact P" "0 < grid_size"
  shows "\<exists>r. resize P (to_rgb P im) (grid_size * 16, grid_size * 16) = Inr r
     \<and> int (shape0 (to_array P r)) div grid_size = 16
     \<and> int (shape1 (to_array P r)) div grid_size = 16
     \<and> grid_size * 16 = int (shape0 (to_array P r))
     \<and> grid_size * 16 = int (shape1 (to_array P r))
     \<and> (\<forall>y x. y < shape0 (to_array P r) \<and> x < shape1 (to_array P r) \<longrightarrow>
          (\<exists>!ij. ij \<in> set (List.product [0..grid_size - 1] [0..grid_size - 1])
             \<and> (y, x) \<in> set (cell_positions (to_array P r) 16 16 (fst ij) (snd ij))))
     \<and> (\<forall>i j. distinct (cell_positions (to_array P r) 16 16 i j))"
proof -
  have "0 < grid_size * 16" using assms(2) by simp
  with assms(1) obtain r where r: "resize P (to_rgb P im) (grid_size * 16, grid_size * 16) = Inr r"
    "shape0 (to_array P r) = nat (grid_size * 16)" "shape1 (to_array P r) = nat (grid_size * 16)"
    unfolding resize_exact_def by blast
  have d: "int (shape0 (to_array P r)) div grid_size = 16"
    "int (shape1 (to_array P r)) div grid_size = 16"
    unfolding r(2,3) using cell_size_16 [OF assms(2)] by simp_all
  have e: "grid_size * 16 = int (shape0 (to_array P r))"
    "grid_size * 16 = int (shape1 (to_array P r))"
    unfolding r(2,3) using assms(2) by simp_all
  have p: "\<forall>y x. y < shape0 (to_array P r) \<and> x < shape1 (to_array P r) \<longrightarrow>
          (\<exists>!ij. ij \<in> set (List.product [0..grid_size - 1] [0..grid_size - 1])
             \<and> (y, x) \<in> set (cell_positions (to_array P r) 16 16 (fst ij) (snd ij)))"
    by (intro allI impI) (erule conjE, rule pixel_in_one_cell [OF r(2,3)])
  have q: "\<forall>i j. distinct (cell_positions (to_array P r) 16 16 i j)"
    by (simp add: distinct_cell_positions)
  show ?thesis
    by (intro exI [of _ r] conjI) (fact r(1) d e p q)+
qed

end
